theory Spec2Isabelle
  imports Complex_Main
begin

section \<open>Values of the Python program\<close>

text \<open>
  The two modules are \<^verbatim>\<open>utils/helpers.py\<close> (gaze overlay, running counters, statistics
  overlay) and \<^verbatim>\<open>utils/file_writer.py\<close> (the queue and the thread that writes the
  percentage file).

  Exceptions are values: a function that can raise returns \<open>py_error + 'a\<close>.
  \<open>CvError\<close> is OpenCV's \<^verbatim>\<open>cv2.error\<close>.
\<close>

datatype py_error = ValueError | OverflowError | ZeroDivisionError | CvError

subsection \<open>Doubles\<close>

text \<open>
  A double as numpy handles it: a finite value, the two infinities, or NaN. A finite
  double is carried as the real number it is; the sign of zero is not represented.
\<close>

datatype npfloat = Fin real | PInf | NInf | NaN

text \<open>Rounding to an integer, a tie going to the even neighbour.\<close>

definition round_half_even :: "real \<Rightarrow> int" where
  "round_half_even x =
    (let f = \<lfloor>x\<rfloor>; d = x - of_int f
     in if d < 1/2 then f else if 1/2 < d then f + 1 else if even f then f else f + 1)"

text \<open>
  IEEE 754 binary64, round to nearest, ties to even. \<open>binade x\<close> is the exponent of the
  binade \<open>x\<close> lies in, not below that of the smallest normal numbers; the doubles there
  are the multiples of \<open>2 powi (binade x - 52)\<close>, and \<open>x\<close> is rounded to the nearest of
  them (below \<open>2 powi (- 1022)\<close> these are the subnormal numbers, and a small enough
  \<open>x\<close> underflows to 0). \<open>round_double\<close> adds the overflow: a result of magnitude
  \<open>2 ^ 1024\<close> or more is an infinity.
\<close>

definition binade :: "real \<Rightarrow> int" where
  "binade x = max \<lfloor>log 2 \<bar>x\<bar>\<rfloor> (- 1022)"

definition round_to_double :: "real \<Rightarrow> real" where
  "round_to_double x =
    (if x = 0 then 0
     else let u = 2 powi (binade x - 52)
          in sgn x * (of_int (round_half_even (\<bar>x\<bar> / u)) * u))"

definition round_double :: "real \<Rightarrow> npfloat" where
  "round_double x =
    (let r = round_to_double x
     in if 2 ^ 1024 \<le> r then PInf else if r \<le> - (2 ^ 1024) then NInf else Fin r)"

text \<open>
  Multiplication and addition of doubles: the exact result, rounded. The special values
  follow IEEE 754 (NaN propagates, \<open>0 * inf\<close> and \<open>inf - inf\<close> are NaN).
\<close>

definition signed_inf :: "real \<Rightarrow> npfloat" where
  "signed_inf a = (if a = 0 then NaN else if 0 < a then PInf else NInf)"

fun fmul :: "npfloat \<Rightarrow> npfloat \<Rightarrow> npfloat" where
  "fmul (Fin a) (Fin b) = round_double (a * b)"
| "fmul NaN _ = NaN"
| "fmul _ NaN = NaN"
| "fmul (Fin a) PInf = signed_inf a"
| "fmul (Fin a) NInf = signed_inf (- a)"
| "fmul PInf (Fin b) = signed_inf b"
| "fmul NInf (Fin b) = signed_inf (- b)"
| "fmul PInf PInf = PInf"
| "fmul PInf NInf = NInf"
| "fmul NInf PInf = NInf"
| "fmul NInf NInf = PInf"

fun fadd :: "npfloat \<Rightarrow> npfloat \<Rightarrow> npfloat" where
  "fadd (Fin a) (Fin b) = round_double (a + b)"
| "fadd NaN _ = NaN"
| "fadd _ NaN = NaN"
| "fadd PInf NInf = NaN"
| "fadd NInf PInf = NaN"
| "fadd PInf _ = PInf"
| "fadd NInf _ = NInf"
| "fadd (Fin a) PInf = PInf"
| "fadd (Fin a) NInf = NInf"

text \<open>\<^verbatim>\<open>np.sqrt\<close> is the square root of IEEE 754, correctly rounded; of a negative number
  it is NaN (with a warning), it does not raise.\<close>

fun fsqrt :: "npfloat \<Rightarrow> npfloat" where
  "fsqrt (Fin a) = (if a < 0 then NaN else round_double (sqrt a))"
| "fsqrt PInf = PInf"
| "fsqrt NInf = NaN"
| "fsqrt NaN = NaN"

text \<open>
  \<^verbatim>\<open>x**2\<close>, \<^verbatim>\<open>np.sin(x)\<close> and \<^verbatim>\<open>np.cos(x)\<close> end in the routines \<^verbatim>\<open>pow\<close>, \<^verbatim>\<open>sin\<close> and
  \<^verbatim>\<open>cos\<close> of the mathematical library, whose last bit IEEE 754 does not fix. What they
  return on a finite double is a parameter of the model: \<open>c_pow2\<close> gives a double or, on
  overflow, an infinity; \<open>np_sin\<close> and \<open>np_cos\<close> give a finite double. On NaN and the
  infinities the results are fixed: NaN squared is NaN, an infinity squared is \<open>+inf\<close>,
  the sine and cosine of NaN or an infinity are NaN.
  Pitch and yaw are taken to be numpy doubles, the type of what \<^verbatim>\<open>np.sin\<close> and
  \<^verbatim>\<open>np.sqrt\<close> return. Were they Python floats, the one difference would be that a
  \<^verbatim>\<open>**\<close> that overflows raises OverflowError instead of giving \<open>+inf\<close>.
\<close>

record libm =
  c_pow2 :: "real \<Rightarrow> npfloat"
  np_sin :: "real \<Rightarrow> real"
  np_cos :: "real \<Rightarrow> real"

fun fpow2 :: "libm \<Rightarrow> npfloat \<Rightarrow> npfloat" where
  "fpow2 L (Fin a) = c_pow2 L a"
| "fpow2 L PInf = PInf"
| "fpow2 L NInf = PInf"
| "fpow2 L NaN = NaN"

fun fsin :: "libm \<Rightarrow> npfloat \<Rightarrow> npfloat" where
  "fsin L (Fin a) = Fin (np_sin L a)"
| "fsin L _ = NaN"

fun fcos :: "libm \<Rightarrow> npfloat \<Rightarrow> npfloat" where
  "fcos L (Fin a) = Fin (np_cos L a)"
| "fcos L _ = NaN"

text \<open>A library whose three routines return the double nearest to the exact result, for
  the examples.\<close>

definition nearest_libm :: libm where
  "nearest_libm =
    \<lparr>c_pow2 = (\<lambda>x. round_double (x * x)),
     np_sin = (\<lambda>x. round_to_double (sin x)),
     np_cos = (\<lambda>x. round_to_double (cos x))\<rparr>"

text \<open>\<^verbatim>\<open>x <= y\<close>.\<close>

fun fle :: "npfloat \<Rightarrow> npfloat \<Rightarrow> bool" where
  "fle (Fin a) (Fin b) = (a \<le> b)"
| "fle NaN _ = False"
| "fle _ NaN = False"
| "fle NInf _ = True"
| "fle _ PInf = True"
| "fle PInf _ = False"
| "fle (Fin a) NInf = False"

text \<open>Python's \<^verbatim>\<open>int(x)\<close> on a float truncates towards zero; it raises ValueError on NaN
  and OverflowError on an infinity.\<close>

definition trunc :: "real \<Rightarrow> int" where
  "trunc a = (if 0 \<le> a then \<lfloor>a\<rfloor> else \<lceil>a\<rceil>)"

fun py_int :: "npfloat \<Rightarrow> py_error + int" where
  "py_int (Fin a) = Inr (trunc a)"
| "py_int NaN = Inl ValueError"
| "py_int PInf = Inl OverflowError"
| "py_int NInf = Inl OverflowError"

text \<open>
  A Python integer that meets a double in a product is converted to the nearest double.
  (An integer beyond the range of the doubles, which Python refuses to convert, is no
  pixel coordinate and no count of faces; that refusal is not modelled.)
\<close>

definition int_to_double :: "int \<Rightarrow> npfloat" where
  "int_to_double n = round_double (of_int n)"

fun is_finite :: "npfloat \<Rightarrow> bool" where
  "is_finite (Fin a) = True"
| "is_finite _ = False"

text \<open>The doubles written \<^verbatim>\<open>0.2\<close> (the default threshold, given as \<^verbatim>\<open>0.20\<close>, and the
  default proportion), \<^verbatim>\<open>0.6\<close> and \<^verbatim>\<open>0.7\<close> (the font scales).\<close>

definition dbl_0_2 :: real where "dbl_0_2 = 3602879701896397 / 18014398509481984"
definition dbl_0_6 :: real where "dbl_0_6 = 5404319552844595 / 9007199254740992"
definition dbl_0_7 :: real where "dbl_0_7 = 3152519739159347 / 4503599627370496"

section \<open>Frames and what is drawn on them\<close>

text \<open>
  A frame is a numpy image: its shape is \<open>(height, width)\<close> or \<open>(height, width, channels)\<close>.
  OpenCV's drawing calls change the pixels in place; the pixels themselves are opaque
  here, and a frame records the drawing calls made on it, in order.
\<close>

type_synonym point = "int \<times> int"
type_synonym color = "nat \<times> nat \<times> nat"

datatype draw_cmd =
    PutText string point real color int
  | Circle point int color int
  | ArrowedLine point point color int real
  | Rectangle point point color int
  | Line point point color int

record frame =
  height :: nat
  width :: nat
  channels :: "nat option"
  drawn :: "draw_cmd list"

definition draw :: "draw_cmd \<Rightarrow> frame \<Rightarrow> frame" where
  "draw c f = f\<lparr>drawn := drawn f @ [c]\<rparr>"

text \<open>
  \<^verbatim>\<open>cv2.line\<close> and \<^verbatim>\<open>cv2.arrowedLine\<close> refuse a thickness that is not between 1 and
  OpenCV's \<^verbatim>\<open>MAX_THICKNESS\<close>, with \<^verbatim>\<open>cv2.error\<close> and before they draw. The other drawing
  calls of the two modules are made with constant thickness and radius that OpenCV
  accepts. Points outside OpenCV's 32-bit coordinates are not modelled.
\<close>

definition cv_thickness_ok :: "int \<Rightarrow> bool" where
  "cv_thickness_ok t = (0 < t \<and> t \<le> 32767)"

text \<open>\<^verbatim>\<open>len(frame.shape) == 2 or frame.shape[2] == 1\<close>\<close>

definition is_grayscale :: "frame \<Rightarrow> bool" where
  "is_grayscale f = (channels f = None \<or> channels f = Some 1)"

text \<open>The bounding box: four integer pixel coordinates, on which
  \<^verbatim>\<open>map(int, bbox[:4])\<close> is the identity.\<close>

type_synonym bbox = "int \<times> int \<times> int \<times> int"

text \<open>A box of pixel coordinates: small enough that every point computed from it fits the
  32-bit coordinates of OpenCV.\<close>

definition pixel_box :: "bbox \<Rightarrow> bool" where
  "pixel_box bb =
    (case bb of (x_min, y_min, x_max, y_max) \<Rightarrow>
       \<bar>x_min\<bar> \<le> 2 ^ 29 \<and> \<bar>y_min\<bar> \<le> 2 ^ 29 \<and> \<bar>x_max\<bar> \<le> 2 ^ 29 \<and> \<bar>y_max\<bar> \<le> 2 ^ 29)"

section \<open>helpers.py: draw_gaze\<close>

definition green :: color where "green = (0, 255, 0)"
definition red :: color where "red = (0, 0, 255)"

text \<open>\<^verbatim>\<open>deviation = np.sqrt(pitch**2 + yaw**2)\<close>\<close>

definition deviation :: "libm \<Rightarrow> npfloat \<Rightarrow> npfloat \<Rightarrow> npfloat" where
  "deviation L pitch yaw = fsqrt (fadd (fpow2 L pitch) (fpow2 L yaw))"

text \<open>
  \<open>draw_gaze\<close> returns the result of the call (the exception raised, or the
  boolean returned) and the caller's frame after the call. A grayscale frame is
  converted by \<^verbatim>\<open>cv2.cvtColor\<close> into a new array bound to the local name, so the drawing
  calls do not reach the caller's frame in that case. The two \<^verbatim>\<open>int(...)\<close> conversions
  of the arrow offsets come before the deviation and before every drawing call; the
  arrow is drawn last, after the text and the circle, and it is the one call whose
  thickness is the caller's.
\<close>

definition draw_gaze ::
  "libm \<Rightarrow> frame \<Rightarrow> bbox \<Rightarrow> npfloat \<Rightarrow> npfloat \<Rightarrow> npfloat \<Rightarrow> int
    \<Rightarrow> (py_error + bool) \<times> frame" where
  "draw_gaze L frame bb pitch yaw attention_threshold thickness =
    (case bb of (x_min, y_min, x_max, y_max) \<Rightarrow>
      let x_center = (x_min + x_max) div 2;
          y_center = (y_min + y_max) div 2;
          gray = is_grayscale frame;
          len = x_max - x_min
      in
      (case py_int (fmul (fmul (int_to_double (- len)) (fsin L pitch)) (fcos L yaw)) of
        Inl e \<Rightarrow> (Inl e, frame)
      | Inr dx \<Rightarrow>
      (case py_int (fmul (int_to_double (- len)) (fsin L yaw)) of
        Inl e \<Rightarrow> (Inl e, frame)
      | Inr dy \<Rightarrow>
        (let dev = deviation L pitch yaw;
            looking = fle dev attention_threshold;
            color = (if looking then green else red);
            text = (if looking then ''Looking at Ad'' else ''NOT looking at Ad'');
            point1 = (x_center, y_center);
            point2 = (x_center + dx, y_center + dy);
            frame2 = draw (Circle (x_center, y_center) 4 color (- 1))
                      (draw (PutText text (x_min, y_min - 10) dbl_0_6 color 2) frame);
            frame3 = draw (ArrowedLine point1 point2 color thickness (1/4)) frame2
        in if cv_thickness_ok thickness
           then (Inr (fle dev attention_threshold), if gray then frame else frame3)
           else (Inl CvError, if gray then frame else frame2)))))"

section \<open>helpers.py: draw_bbox\<close>

text \<open>
  \<^verbatim>\<open>int(proportion * min(width, height))\<close> is the conversion of a finite double. The
  rectangle goes onto the caller's frame first; the eight corner lines follow when
  \<^verbatim>\<open>cv2.line\<close> accepts the thickness, otherwise the first of them raises.
\<close>

definition draw_bbox ::
  "frame \<Rightarrow> bbox \<Rightarrow> color \<Rightarrow> int \<Rightarrow> real \<Rightarrow> (py_error + unit) \<times> frame" where
  "draw_bbox img bb color thickness proportion =
    (case bb of (x_min, y_min, x_max, y_max) \<Rightarrow>
      let w = x_max - x_min;
          h = y_max - y_min;
          corner_length = trunc (round_to_double (proportion * of_int (min w h)));
          img1 = draw (Rectangle (x_min, y_min) (x_max, y_max) color 1) img
      in if cv_thickness_ok thickness then
           (Inr (),
            foldl (\<lambda>f c. draw c f) img1
              [Line (x_min, y_min) (x_min + corner_length, y_min) color thickness,
               Line (x_min, y_min) (x_min, y_min + corner_length) color thickness,
               Line (x_max, y_min) (x_max - corner_length, y_min) color thickness,
               Line (x_max, y_min) (x_max, y_min + corner_length) color thickness,
               Line (x_min, y_max) (x_min, y_max - corner_length) color thickness,
               Line (x_min, y_max) (x_min + corner_length, y_max) color thickness,
               Line (x_max, y_max) (x_max, y_max - corner_length) color thickness,
               Line (x_max, y_max) (x_max - corner_length, y_max) color thickness])
         else (Inl CvError, img1))"

section \<open>file_writer.py: the queue\<close>

text \<open>
  \<^verbatim>\<open>percentage_queue = Queue()\<close>: an unbounded FIFO queue. An item is a percentage or
  Python's \<^verbatim>\<open>None\<close> (the item on which the writer thread leaves its loop), so an item is a
  \<open>real option\<close>. \<^verbatim>\<open>put\<close> on an unbounded queue neither blocks nor raises; \<^verbatim>\<open>get\<close>
  blocks on an empty queue (\<open>None\<close> below: no item to return yet); \<^verbatim>\<open>task_done\<close>
  raises ValueError when called more often than items were put.
\<close>

record queue =
  items :: "real option list"
  unfinished_tasks :: nat

definition Queue :: queue where
  "Queue = \<lparr>items = [], unfinished_tasks = 0\<rparr>"

definition put :: "real option \<Rightarrow> queue \<Rightarrow> queue" where
  "put item q = q\<lparr>items := items q @ [item], unfinished_tasks := Suc (unfinished_tasks q)\<rparr>"

definition get :: "queue \<Rightarrow> (real option \<times> queue) option" where
  "get q = (case items q of [] \<Rightarrow> None | item # rest \<Rightarrow> Some (item, q\<lparr>items := rest\<rparr>))"

definition task_done :: "queue \<Rightarrow> py_error + queue" where
  "task_done q =
    (if unfinished_tasks q = 0 then Inl ValueError
     else Inr (q\<lparr>unfinished_tasks := unfinished_tasks q - 1\<rparr>))"

section \<open>helpers.py: the counters, draw_bbox_gaze and draw_stats\<close>

text \<open>
  The module-level state. The three counters start at 0 and the only writes to them in
  the repository add 1, so their values are natural numbers (Python's integers are
  unbounded, as \<open>nat\<close> is). \<open>percentage_queue\<close> is the queue imported from
  \<^verbatim>\<open>utils.file_writer\<close>.
\<close>

record globals =
  looks_count :: nat
  no_looks_count :: nat
  total_faces :: nat
  percentage_queue :: queue

definition initial_globals :: globals where
  "initial_globals =
    \<lparr>looks_count = 0, no_looks_count = 0, total_faces = 0, percentage_queue = Queue\<rparr>"

text \<open>The counter update of \<open>draw_bbox_gaze\<close> (\<^verbatim>\<open>total_faces += 1\<close> and the
  \<^verbatim>\<open>if is_looking\<close> that follows it).\<close>

definition update_counters :: "bool \<Rightarrow> globals \<Rightarrow> globals" where
  "update_counters is_looking g =
    (let g1 = g\<lparr>total_faces := total_faces g + 1\<rparr>
     in if is_looking then g1\<lparr>looks_count := looks_count g1 + 1\<rparr>
        else g1\<lparr>no_looks_count := no_looks_count g1 + 1\<rparr>)"

text \<open>
  \<open>draw_bbox_gaze\<close> returns the result of the call, the caller's frame and the
  globals after it. The box is drawn with the defaults of \<open>draw_bbox\<close> (green,
  thickness 2, proportion 0.2) and the gaze with the default thickness 2. When
  \<open>draw_gaze\<close> raises, the exception leaves \<open>draw_bbox_gaze\<close> before the counters
  are touched; the box is already drawn.
\<close>

definition draw_bbox_gaze ::
  "libm \<Rightarrow> frame \<Rightarrow> bbox \<Rightarrow> npfloat \<Rightarrow> npfloat \<Rightarrow> npfloat \<Rightarrow> globals
    \<Rightarrow> (py_error + bool) \<times> frame \<times> globals" where
  "draw_bbox_gaze L frame bb pitch yaw attention_threshold g =
    (case draw_bbox frame bb green 2 dbl_0_2 of
       (Inl e, frame1) \<Rightarrow> (Inl e, frame1, g)
     | (Inr u, frame1) \<Rightarrow>
        (case draw_gaze L frame1 bb pitch yaw attention_threshold 2 of
           (Inl e, frame2) \<Rightarrow> (Inl e, frame2, g)
         | (Inr is_looking, frame2) \<Rightarrow>
             (Inr is_looking, frame2, update_counters is_looking g)))"

section \<open>Formatting\<close>

text \<open>\<^verbatim>\<open>str(n)\<close> for a non-negative integer, as an f-string field \<^verbatim>\<open>{n}\<close> prints it.\<close>

definition digit_char :: "nat \<Rightarrow> char" where
  "digit_char d = ''0123456789'' ! d"

fun str_nat :: "nat \<Rightarrow> string" where
  "str_nat n = (if n < 10 then [digit_char n] else str_nat (n div 10) @ [digit_char (n mod 10)])"

text \<open>
  The format \<^verbatim>\<open>.1f\<close>: the value is rounded to one decimal, a tie going to the even
  digit, and printed with its sign, its integer part, a point and one digit. Python
  rounds the exact value of the double, which is the real number carried here.
\<close>

definition format_1f :: "real \<Rightarrow> string" where
  "format_1f x =
    (let n = nat (round_half_even (\<bar>x\<bar> * 10))
     in (if x < 0 then ''-'' else '''') @ str_nat (n div 10) @ ''.'' @ str_nat (n mod 10))"

section \<open>helpers.py: draw_stats\<close>

text \<open>
  \<^verbatim>\<open>a / b\<close> on integers is true division: ZeroDivisionError on \<open>b = 0\<close>, otherwise the
  double nearest to the quotient. (A quotient beyond the range of the doubles, which
  Python refuses with OverflowError, needs a count of more than \<open>10 ^ 308\<close> faces; that
  refusal is not modelled.)
\<close>

definition py_truediv :: "nat \<Rightarrow> nat \<Rightarrow> py_error + real" where
  "py_truediv a b =
    (if b = 0 then Inl ZeroDivisionError else Inr (round_to_double (real a / real b)))"

text \<open>The lines of \<open>draw_stats\<close> under \<^verbatim>\<open># calc percentage\<close>: the value of the local
  \<^verbatim>\<open>looking_percentage\<close>, which is \<^verbatim>\<open>(looks_count / total_faces) * 100\<close>, the quotient
  rounded to a double and then the product. Python's integer \<open>0\<close> of the first line and
  the float \<open>0.0\<close> are the same number and print alike under \<^verbatim>\<open>.1f\<close>.\<close>

definition looking_percentage :: "globals \<Rightarrow> py_error + real" where
  "looking_percentage g =
    (if total_faces g > 0 then
       (case py_truediv (looks_count g) (total_faces g) of
          Inl e \<Rightarrow> Inl e
        | Inr r \<Rightarrow> Inr (round_to_double (r * 100)))
     else Inr 0)"

definition stats_overlay :: "globals \<Rightarrow> real \<Rightarrow> int \<Rightarrow> draw_cmd list" where
  "stats_overlay g p w =
    [Rectangle (w - 300, 0) (w, 120) (0, 0, 0) (- 1),
     PutText (''Total Faces: '' @ str_nat (total_faces g)) (w - 290, 30) dbl_0_7 (255, 255, 255) 2,
     PutText (''Looking Count: '' @ str_nat (looks_count g)) (w - 290, 60) dbl_0_7 (0, 255, 0) 2,
     PutText (''Not Looking: '' @ str_nat (no_looks_count g)) (w - 290, 90) dbl_0_7 (0, 0, 255) 2,
     PutText (''Looking %: '' @ format_1f p @ ''%'') (w - 290, 120) dbl_0_7 (255, 255, 0) 2]"

definition draw_stats :: "frame \<Rightarrow> globals \<Rightarrow> (py_error + unit) \<times> frame \<times> globals" where
  "draw_stats frame g =
    (case looking_percentage g of
       Inl e \<Rightarrow> (Inl e, frame, g)
     | Inr p \<Rightarrow>
         (Inr (),
          foldl (\<lambda>f c. draw c f) frame (stats_overlay g p (int (width frame))),
          g\<lparr>percentage_queue := put (Some p) (percentage_queue g)\<rparr>))"

section \<open>file_writer.py: the writer thread\<close>

text \<open>
  What the thread acts on: the text of the file \<^verbatim>\<open>../percentage.txt\<close> (\<open>None\<close> while the
  file does not exist), every content the file has held before its present one (oldest first: what a
  process reading the file could have read), and the lines printed.
  \<open>attempts\<close> counts the \<^verbatim>\<open>open\<close> calls made, and the file system's answer to the
  \<open>n\<close>-th of them is a parameter of the model: the write goes through, \<^verbatim>\<open>open\<close> raises
  (the file is untouched), or \<^verbatim>\<open>open\<close> succeeds (mode \<^verbatim>\<open>'w'\<close> truncates the file at once)
  and the write or the close raises. The string is the exception's text.
\<close>

datatype io_outcome = WriteOk | OpenFails string | WriteFails string

record world =
  percentage_txt :: "string option"
  seen :: "string option list"
  stdout :: "string list"
  attempts :: nat

definition set_file :: "string \<Rightarrow> world \<Rightarrow> world" where
  "set_file s w = w\<lparr>seen := seen w @ [percentage_txt w], percentage_txt := Some s\<rparr>"

definition print :: "string \<Rightarrow> world \<Rightarrow> world" where
  "print s w = w\<lparr>stdout := stdout w @ [s]\<rparr>"

text \<open>The \<^verbatim>\<open>try\<close> statement of the loop body.\<close>

definition write_percentage :: "(nat \<Rightarrow> io_outcome) \<Rightarrow> real \<Rightarrow> world \<Rightarrow> world" where
  "write_percentage env percentage w =
    (let w1 = w\<lparr>attempts := Suc (attempts w)\<rparr>
     in case env (attempts w) of
          WriteOk \<Rightarrow> set_file (format_1f percentage) (set_file '''' w1)
        | OpenFails msg \<Rightarrow> print (''Error writing to file: '' @ msg) w1
        | WriteFails msg \<Rightarrow> print (''Error writing to file: '' @ msg) (set_file '''' w1))"

text \<open>
  The thread is running its loop, blocked in \<^verbatim>\<open>get\<close> on the empty queue, out of the loop
  after \<^verbatim>\<open>break\<close>, or dead with an exception that left \<open>percentage_writer\<close>.
\<close>

datatype thread_state = Running | Waiting | Stopped | Died py_error

text \<open>One pass through the body of \<^verbatim>\<open>while True\<close>.\<close>

definition writer_iteration ::
  "(nat \<Rightarrow> io_outcome) \<Rightarrow> queue \<Rightarrow> world \<Rightarrow> thread_state \<times> queue \<times> world" where
  "writer_iteration env q w =
    (case get q of
       None \<Rightarrow> (Waiting, q, w)
     | Some (percentage, q1) \<Rightarrow>
        (case percentage of
           None \<Rightarrow> (Stopped, q1, w)
         | Some p \<Rightarrow>
            (let w1 = write_percentage env p w
             in case task_done q1 of
                  Inl e \<Rightarrow> (Died e, q1, w1)
                | Inr q2 \<Rightarrow> (Running, q2, w1))))"

lemma writer_iteration_shorter:
  "writer_iteration env q w = (Running, q', w') \<Longrightarrow> length (items q') < length (items q)"
  by (auto simp: writer_iteration_def get_def task_done_def Let_def
           split: list.splits option.splits if_splits)

text \<open>
  The loop, run on the queue as it stands until the thread blocks, breaks or dies. Each
  pass takes an item off the queue, so the loop ends on every queue.
\<close>

function percentage_writer ::
  "(nat \<Rightarrow> io_outcome) \<Rightarrow> queue \<Rightarrow> world \<Rightarrow> thread_state \<times> queue \<times> world" where
  "percentage_writer env q w =
    (case writer_iteration env q w of
       (Running, q', w') \<Rightarrow> percentage_writer env q' w'
     | r \<Rightarrow> r)"
  by pat_completeness auto
termination
  by (relation "measure (\<lambda>(env, q, w). length (items q))")
     (auto dest: writer_iteration_shorter [OF sym])

text \<open>The contents the file has gone through, the present one last.\<close>

definition file_history :: "world \<Rightarrow> string option list" where
  "file_history w = seen w @ [percentage_txt w]"

text \<open>The world after the \<^verbatim>\<open>try\<close> statement has run for each of the samples in turn.\<close>

definition write_all :: "(nat \<Rightarrow> io_outcome) \<Rightarrow> real list \<Rightarrow> world \<Rightarrow> world" where
  "write_all env ps w = foldl (\<lambda>w p. write_percentage env p w) w ps"

text \<open>The queue after \<^verbatim>\<open>percentage_queue.put(x)\<close> for each item in turn.\<close>

definition put_all :: "real option list \<Rightarrow> queue \<Rightarrow> queue" where
  "put_all xs q = foldl (\<lambda>q x. put x q) q xs"

text \<open>What a write attempt with this outcome prints.\<close>

definition logged :: "io_outcome \<Rightarrow> string list" where
  "logged out =
    (case out of
       WriteOk \<Rightarrow> []
     | OpenFails msg \<Rightarrow> [''Error writing to file: '' @ msg]
     | WriteFails msg \<Rightarrow> [''Error writing to file: '' @ msg])"

section \<open>The thread beside its publishers\<close>

text \<open>
  \<^verbatim>\<open>writer_thread.start()\<close> runs \<open>percentage_writer\<close> in a thread of its own while the
  frame loop calls \<^verbatim>\<open>percentage_queue.put\<close>. A schedule is the order in which the two
  take their turns: a \<open>Publish\<close> is one \<^verbatim>\<open>put\<close>, a \<open>WriterPass\<close> is one pass of the
  thread through the body of its loop (nothing happens when the thread has left the
  loop; the pass blocks, and changes nothing, on the empty queue). A pass is taken as
  one step: a \<^verbatim>\<open>put\<close> in the middle of it only appends to the far end of the queue.
  \<open>finish\<close> lets the thread run on with no further \<^verbatim>\<open>put\<close> until it blocks, breaks
  or dies.
\<close>

datatype event = Publish "real option" | WriterPass

type_synonym system = "thread_state \<times> queue \<times> world"

definition alive :: "thread_state \<Rightarrow> bool" where
  "alive st = (st = Running \<or> st = Waiting)"

fun step :: "(nat \<Rightarrow> io_outcome) \<Rightarrow> system \<Rightarrow> event \<Rightarrow> system" where
  "step env (st, q, w) (Publish x) = (st, put x q, w)"
| "step env (st, q, w) WriterPass =
     (if alive st then writer_iteration env q w else (st, q, w))"

definition run_schedule :: "(nat \<Rightarrow> io_outcome) \<Rightarrow> event list \<Rightarrow> system \<Rightarrow> system" where
  "run_schedule env evs s = foldl (step env) s evs"

definition finish :: "(nat \<Rightarrow> io_outcome) \<Rightarrow> system \<Rightarrow> system" where
  "finish env s = (case s of (st, q, w) \<Rightarrow> if alive st then percentage_writer env q w else (st, q, w))"

fun publishes :: "event list \<Rightarrow> real option list" where
  "publishes [] = []"
| "publishes (Publish x # evs) = x # publishes evs"
| "publishes (WriterPass # evs) = publishes evs"

section \<open>Sequences of calls\<close>

text \<open>
  The callers of \<open>draw_bbox_gaze\<close> and \<open>draw_stats\<close> are outside the two modules.
  A sequence of calls is run from left to right, each call on its own frame and on the
  globals the call before left behind; an exception of a call is taken to be caught
  by its caller, and its result is kept in the list of results.
\<close>

type_synonym face_call = "frame \<times> bbox \<times> npfloat \<times> npfloat \<times> npfloat"

fun record_faces ::
  "libm \<Rightarrow> face_call list \<Rightarrow> globals \<Rightarrow> (py_error + bool) list \<times> globals" where
  "record_faces L [] g = ([], g)"
| "record_faces L ((frame, bb, pitch, yaw, thr) # cs) g =
    (case draw_bbox_gaze L frame bb pitch yaw thr g of
       (r, frame', g1) \<Rightarrow> (case record_faces L cs g1 of (rs, g2) \<Rightarrow> (r # rs, g2)))"

datatype call = FaceCall face_call | StatsCall frame

fun run_calls :: "libm \<Rightarrow> call list \<Rightarrow> globals \<Rightarrow> globals" where
  "run_calls L [] g = g"
| "run_calls L (FaceCall (frame, bb, pitch, yaw, thr) # cs) g =
    run_calls L cs (snd (snd (draw_bbox_gaze L frame bb pitch yaw thr g)))"
| "run_calls L (StatsCall frame # cs) g = run_calls L cs (snd (snd (draw_stats frame g)))"

text \<open>A colour frame of 640 by 480 pixels with nothing drawn on it, for the examples.\<close>

definition frame0 :: frame where
  "frame0 = \<lparr>height = 480, width = 640, channels = Some 3, drawn = []\<rparr>"

text \<open>Three faces under the default threshold 0.2: a pitch of 0.125 (looking), a pitch of
  0.5 (not looking), a yaw of 0.125 (looking).\<close>

definition three_faces :: "face_call list" where
  "three_faces =
    [(frame0, (0, 0, 100, 100), Fin (1/8), Fin 0, Fin dbl_0_2),
     (frame0, (0, 0, 100, 100), Fin (1/2), Fin 0, Fin dbl_0_2),
     (frame0, (200, 50, 300, 150), Fin 0, Fin (1/8), Fin dbl_0_2)]"

text \<open>Two faces with a call of \<open>draw_stats\<close> between them.\<close>

definition two_faces_and_stats :: "call list" where
  "two_faces_and_stats =
    [FaceCall (frame0, (0, 0, 100, 100), Fin (1/8), Fin 0, Fin dbl_0_2),
     StatsCall frame0,
     FaceCall (frame0, (0, 0, 100, 100), Fin (1/2), Fin 0, Fin dbl_0_2)]"

text \<open>The counters after three faces of which two were looking, and after eighty of which
  twenty-three were.\<close>

definition two_of_three :: globals where
  "two_of_three = initial_globals\<lparr>looks_count := 2, no_looks_count := 1, total_faces := 3\<rparr>"

definition twentythree_of_eighty :: globals where
  "twentythree_of_eighty =
    initial_globals\<lparr>looks_count := 23, no_looks_count := 57, total_faces := 80\<rparr>"

text \<open>For the examples of the writer thread: the file holds \<^verbatim>\<open>10.0\<close> from an earlier
  write; a file system that refuses the first \<^verbatim>\<open>open\<close> and accepts the later ones; and
  three schedules. The second sample of \<open>three_samples\<close> is the double written
  \<^verbatim>\<open>55.55\<close>.\<close>

definition world0 :: world where
  "world0 = \<lparr>percentage_txt = Some ''10.0'', seen = [], stdout = [], attempts = 0\<rparr>"

definition denied_once :: "nat \<Rightarrow> io_outcome" where
  "denied_once n = (if n = 0 then OpenFails ''[Errno 13] Permission denied'' else WriteOk)"

definition three_samples :: "event list" where
  "three_samples =
    [Publish (Some 10), WriterPass, Publish (Some (3908983739069235 / 70368744177664)),
     Publish (Some 100), WriterPass, WriterPass]"

definition five_samples_then_stop :: "event list" where
  "five_samples_then_stop =
    [Publish (Some 10), Publish (Some 20), WriterPass, Publish (Some 30), Publish (Some 40),
     Publish (Some 50), Publish None, WriterPass, Publish (Some 60), WriterPass]"

definition two_samples :: "event list" where
  "two_samples = [Publish (Some 10), WriterPass, Publish (Some 20)]"

section \<open>Rounding\<close>

lemma binade_eq:
  assumes "2 powi e \<le> \<bar>x\<bar>" "\<bar>x\<bar> < 2 powi (e + 1)"
  shows "binade x = max e (- 1022)"
proof -
  have pos: "0 < \<bar>x\<bar>"
    using assms(1) zero_less_power_int [of "2::real" e] by linarith
  have p1: "(2::real) powr real_of_int e = 2 powi e"
    by (simp add: powr_real_of_int')
  have p2: "(2::real) powr (real_of_int e + 1) = 2 powi (e + 1)"
    using powr_real_of_int' [of "2::real" "e + 1"] by simp
  have "\<lfloor>log 2 \<bar>x\<bar>\<rfloor> = e"
    using assms pos by (simp add: floor_log_eq_powr_iff p1 p2)
  then show ?thesis by (simp add: binade_def)
qed

lemma round_half_even_le: "x \<le> of_int n \<Longrightarrow> round_half_even x \<le> n"
  unfolding round_half_even_def Let_def by (auto; linarith)

lemma round_half_even_nonneg: "0 \<le> x \<Longrightarrow> 0 \<le> round_half_even x"
  unfolding round_half_even_def Let_def by (auto; linarith)

lemma round_half_even_of_int: "round_half_even (of_int n) = n"
  by (simp add: round_half_even_def)

lemma binade_le_52:
  assumes "x \<noteq> 0" "\<bar>x\<bar> < 2 ^ 53"
  shows "binade x \<le> 52"
proof -
  have "log 2 \<bar>x\<bar> < 53"
    using assms by (simp add: log_less_iff)
  then have "\<lfloor>log 2 \<bar>x\<bar>\<rfloor> < 53"
    by (simp add: floor_less_iff)
  then show ?thesis by (simp add: binade_def)
qed

lemma round_to_double_bound:
  assumes "\<bar>x\<bar> \<le> of_int n" "n < 2 ^ 53"
  shows "\<bar>round_to_double x\<bar> \<le> of_int n"
proof (cases "x = 0")
  case True
  then show ?thesis using assms by (simp add: round_to_double_def)
next
  case False
  define u :: real where "u = 2 powi (binade x - 52)"
  define k where "k = nat (52 - binade x)"
  have "\<bar>x\<bar> < 2 ^ 53"
  proof -
    have "real_of_int n < 2 ^ 53" using assms(2) by (metis of_int_less_numeral_power_cancel_iff)
    then show ?thesis using assms(1) by linarith
  qed
  then have e: "binade x \<le> 52" using False by (rule binade_le_52 [rotated])
  have upos: "0 < u" by (simp add: u_def)
  have inv_u: "1 / u = 2 ^ k"
    using e by (simp add: u_def k_def power_int_diff power_int_def field_simps nat_diff_distrib)
  have "\<bar>x\<bar> / u \<le> of_int n / u"
    using assms(1) upos by (simp add: divide_right_mono)
  also have "of_int n / u = of_int (n * 2 ^ k)"
    using inv_u [symmetric] by simp
  finally have m_le: "round_half_even (\<bar>x\<bar> / u) \<le> n * 2 ^ k"
    by (rule round_half_even_le)
  have m_ge: "0 \<le> round_half_even (\<bar>x\<bar> / u)"
    using upos by (intro round_half_even_nonneg) simp
  have "real_of_int (round_half_even (\<bar>x\<bar> / u)) \<le> real_of_int (n * 2 ^ k)"
    using m_le by (simp only: of_int_le_iff)
  then have "of_int (round_half_even (\<bar>x\<bar> / u)) * u \<le> of_int (n * 2 ^ k) * u"
    using upos by (intro mult_right_mono) simp_all
  also have "\<dots> = of_int n"
    using inv_u [symmetric] upos by simp
  finally have y_le: "of_int (round_half_even (\<bar>x\<bar> / u)) * u \<le> of_int n" .
  have y_ge: "0 \<le> of_int (round_half_even (\<bar>x\<bar> / u)) * u"
    using m_ge upos by simp
  have "\<bar>round_to_double x\<bar> = \<bar>of_int (round_half_even (\<bar>x\<bar> / u)) * u\<bar>"
    using False by (simp add: round_to_double_def Let_def u_def abs_mult)
  also have "\<dots> = of_int (round_half_even (\<bar>x\<bar> / u)) * u"
    using y_ge by simp
  finally have "\<bar>round_to_double x\<bar> = of_int (round_half_even (\<bar>x\<bar> / u)) * u" .
  then show ?thesis using y_le by simp
qed

lemma round_to_double_nonneg: "0 \<le> x \<Longrightarrow> 0 \<le> round_to_double x"
  by (auto simp: round_to_double_def Let_def intro!: mult_nonneg_nonneg round_half_even_nonneg)

lemma round_double_finite:
  "\<bar>x\<bar> \<le> of_int n \<Longrightarrow> n < 2 ^ 53 \<Longrightarrow> round_double x = Fin (round_to_double x)"
proof -
  assume a: "\<bar>x\<bar> \<le> of_int n" "n < 2 ^ 53"
  have "\<bar>round_to_double x\<bar> \<le> of_int n" using a by (rule round_to_double_bound)
  moreover have "real_of_int n < 2 ^ 53" using a(2) by (metis of_int_less_numeral_power_cancel_iff)
  moreover have "(2::real) ^ 53 < 2 ^ 1024" by simp
  ultimately have "\<bar>round_to_double x\<bar> < 2 ^ 1024" by linarith
  then have "\<not> 2 ^ 1024 \<le> round_to_double x" "\<not> round_to_double x \<le> - (2 ^ 1024)"
    by linarith+
  then show ?thesis
    unfolding round_double_def Let_def by (simp only: if_False)
qed

lemma round_to_double_eval:
  assumes "2 powi e \<le> \<bar>x\<bar>" "\<bar>x\<bar> < 2 powi (e + 1)" "- 1022 \<le> e"
  shows "round_to_double x =
    sgn x * (of_int (round_half_even (\<bar>x\<bar> / 2 powi (e - 52))) * 2 powi (e - 52))"
proof -
  have "0 < \<bar>x\<bar>"
    using assms(1) zero_less_power_int [of "2::real" e] by linarith
  then have "x \<noteq> 0" by auto
  moreover have "binade x = e"
    using binade_eq [OF assms(1,2)] assms(3) by simp
  ultimately show ?thesis by (simp add: round_to_double_def Let_def)
qed


lemma round_double_0: "round_double 0 = Fin 0"
  by (simp add: round_double_def round_to_double_def)

lemma fmul_NaN_right: "fmul x NaN = NaN"
  by (cases x) simp_all

lemma fadd_NaN_right: "fadd x NaN = NaN"
  by (cases x) simp_all

lemma fmul_Fin_bounded:
  assumes "\<bar>a\<bar> \<le> of_int n" "\<bar>b\<bar> \<le> 1" "n < 2 ^ 53"
  shows "fmul (Fin a) (Fin b) = Fin (round_to_double (a * b))
       \<and> \<bar>round_to_double (a * b)\<bar> \<le> of_int n"
proof -
  have "\<bar>a * b\<bar> \<le> \<bar>a\<bar> * 1"
    unfolding abs_mult using assms(2) by (intro mult_left_mono) simp_all
  then have ab: "\<bar>a * b\<bar> \<le> of_int n"
    using assms(1) by simp
  show ?thesis
    using round_double_finite [OF ab assms(3)] round_to_double_bound [OF ab assms(3)]
    by simp
qed

text \<open>The two conversions of the arrow offsets go through for a finite pitch and yaw.\<close>

lemma arrow_offsets_convert:
  assumes "\<bar>len\<bar> < 2 ^ 53" "\<bar>s\<bar> \<le> 1" "\<bar>c\<bar> \<le> 1"
  shows "\<exists>dx. py_int (fmul (fmul (int_to_double len) (Fin s)) (Fin c)) = Inr dx"
    and "\<exists>dy. py_int (fmul (int_to_double len) (Fin s)) = Inr dy"
proof -
  have n: "\<bar>real_of_int len\<bar> \<le> of_int \<bar>len\<bar>"
    by simp
  have r0: "int_to_double len = Fin (round_to_double (of_int len))"
    "\<bar>round_to_double (of_int len)\<bar> \<le> of_int \<bar>len\<bar>"
    using round_double_finite [OF n assms(1)] round_to_double_bound [OF n assms(1)]
    by (simp_all add: int_to_double_def)
  note r1 = fmul_Fin_bounded [OF r0(2) assms(2) assms(1)]
  note r2 = fmul_Fin_bounded [OF conjunct2 [OF r1] assms(3) assms(1)]
  show "\<exists>dx. py_int (fmul (fmul (int_to_double len) (Fin s)) (Fin c)) = Inr dx"
    using r0 r1 r2 by simp
  show "\<exists>dy. py_int (fmul (int_to_double len) (Fin s)) = Inr dy"
    using r0 r1 by simp
qed

lemma nearest_libm_bounds:
  "\<bar>np_sin nearest_libm x\<bar> \<le> 1" "\<bar>np_cos nearest_libm x\<bar> \<le> 1"
  using round_to_double_bound [of "sin x" 1] round_to_double_bound [of "cos x" 1]
  by (simp_all add: nearest_libm_def)

section \<open>The attention decision\<close>

lemma pixel_box_length:
  "pixel_box (x_min, y_min, x_max, y_max) \<Longrightarrow> \<bar>- (x_max - x_min)\<bar> < 2 ^ 53"
  unfolding pixel_box_def by simp linarith

lemma draw_gaze_returns:
  assumes "pixel_box bb" "cv_thickness_ok thickness"
    and "\<bar>np_sin L p\<bar> \<le> 1" "\<bar>np_cos L y\<bar> \<le> 1" "\<bar>np_sin L y\<bar> \<le> 1"
  shows "fst (draw_gaze L frame bb (Fin p) (Fin y) thr thickness)
           = Inr (fle (deviation L (Fin p) (Fin y)) thr)"
proof -
  obtain x_min y_min x_max y_max where bb: "bb = (x_min, y_min, x_max, y_max)"
    by (cases bb) auto
  have len: "\<bar>- (x_max - x_min)\<bar> < 2 ^ 53"
    using assms(1) unfolding bb by (rule pixel_box_length)
  obtain dx where dx:
    "py_int (fmul (fmul (int_to_double (- (x_max - x_min))) (Fin (np_sin L p))) (Fin (np_cos L y)))
       = Inr dx"
    using arrow_offsets_convert(1) [OF len assms(3) assms(4)] by blast
  obtain dy where dy:
    "py_int (fmul (int_to_double (- (x_max - x_min))) (Fin (np_sin L y))) = Inr dy"
    using arrow_offsets_convert(2) [OF len assms(5) assms(5)] by blast
  show ?thesis
    using assms(2) dx dy by (simp add: draw_gaze_def bb Let_def)
qed

lemma draw_bbox_gaze_returns:
  assumes "pixel_box bb"
    and "\<bar>np_sin L p\<bar> \<le> 1" "\<bar>np_cos L y\<bar> \<le> 1" "\<bar>np_sin L y\<bar> \<le> 1"
  shows "fst (draw_bbox_gaze L frame bb (Fin p) (Fin y) thr g)
           = Inr (fle (deviation L (Fin p) (Fin y)) thr)"
    and "snd (snd (draw_bbox_gaze L frame bb (Fin p) (Fin y) thr g))
           = update_counters (fle (deviation L (Fin p) (Fin y)) thr) g"
proof -
  obtain frame1 where b: "draw_bbox frame bb green 2 dbl_0_2 = (Inr (), frame1)"
    by (cases bb) (simp add: draw_bbox_def Let_def cv_thickness_ok_def)
  have ok: "cv_thickness_ok 2"
    by (simp add: cv_thickness_ok_def)
  obtain frame2 where d:
    "draw_gaze L frame1 bb (Fin p) (Fin y) thr 2
       = (Inr (fle (deviation L (Fin p) (Fin y)) thr), frame2)"
    using draw_gaze_returns [OF assms(1) ok assms(2,3,4), of frame1 thr]
    by (cases "draw_gaze L frame1 bb (Fin p) (Fin y) thr 2") auto
  show "fst (draw_bbox_gaze L frame bb (Fin p) (Fin y) thr g)
           = Inr (fle (deviation L (Fin p) (Fin y)) thr)"
    by (simp add: draw_bbox_gaze_def b d)
  show "snd (snd (draw_bbox_gaze L frame bb (Fin p) (Fin y) thr g))
           = update_counters (fle (deviation L (Fin p) (Fin y)) thr) g"
    by (simp add: draw_bbox_gaze_def b d)
qed

text \<open>Numbers that are doubles round to themselves.\<close>

lemma exact_doubles:
  "round_double (1/64) = Fin (1/64)" "round_double (1/16) = Fin (1/16)"
  "round_double (1/8) = Fin (1/8)" "round_double (9/64) = Fin (9/64)"
  "round_double (13/64) = Fin (13/64)" "round_double (1/4) = Fin (1/4)"
  "round_double (1/2) = Fin (1/2)"
proof -
  have r: "round_to_double (1/64) = 1/64" "round_to_double (1/16) = 1/16"
    "round_to_double (1/8) = 1/8" "round_to_double (9/64) = 9/64"
    "round_to_double (13/64) = 13/64" "round_to_double (1/4) = 1/4"
    "round_to_double (1/2) = 1/2"
    using round_to_double_eval [of "-6" "1/64"] round_to_double_eval [of "-4" "1/16"]
      round_to_double_eval [of "-3" "1/8"] round_to_double_eval [of "-3" "9/64"]
      round_to_double_eval [of "-3" "13/64"] round_to_double_eval [of "-2" "1/4"]
      round_to_double_eval [of "-1" "1/2"]
    by (simp_all add: round_half_even_def Let_def)
  show "round_double (1/64) = Fin (1/64)" "round_double (1/16) = Fin (1/16)"
    "round_double (1/8) = Fin (1/8)" "round_double (9/64) = Fin (9/64)"
    "round_double (13/64) = Fin (13/64)" "round_double (1/4) = Fin (1/4)"
    "round_double (1/2) = Fin (1/2)"
    by (simp_all add: round_double_def r)
qed

text \<open>Deviations computed with the library of the examples.\<close>

lemma deviation_on_axis:
  "deviation nearest_libm (Fin (1/8)) (Fin 0) = Fin (1/8)"
  "deviation nearest_libm (Fin 0) (Fin (1/8)) = Fin (1/8)"
  "deviation nearest_libm (Fin (1/2)) (Fin 0) = Fin (1/2)"
proof -
  have s: "sqrt (1/64) = 1/8" "sqrt (1/4) = 1/2"
    by (rule real_sqrt_unique; simp add: power2_eq_square)+
  show "deviation nearest_libm (Fin (1/8)) (Fin 0) = Fin (1/8)"
    "deviation nearest_libm (Fin 0) (Fin (1/8)) = Fin (1/8)"
    "deviation nearest_libm (Fin (1/2)) (Fin 0) = Fin (1/2)"
    by (simp_all add: deviation_def nearest_libm_def round_double_0 exact_doubles s)
qed






text \<open>
  C8, as amended. For every pitch or yaw that is NaN or infinite, the deviation
  expression by itself is NaN or \<open>+inf\<close> and compares false with every threshold but
  \<open>+inf\<close>. The call never gets there: the integer conversion of the arrow's horizontal
  offset raises ValueError first, so \<open>draw_gaze\<close> returns no decision and draws
  nothing, and \<open>draw_bbox_gaze\<close> passes the exception on with the counters unchanged.
\<close>

theorem non_finite_gaze_raises:
  assumes "\<not> is_finite pitch \<or> \<not> is_finite yaw"
  shows "draw_gaze L frame bb pitch yaw thr thickness = (Inl ValueError, frame)
       \<and> fst (draw_bbox_gaze L frame bb pitch yaw thr g) = Inl ValueError
       \<and> snd (snd (draw_bbox_gaze L frame bb pitch yaw thr g)) = g
       \<and> (deviation L pitch yaw = NaN \<or> deviation L pitch yaw = PInf)
       \<and> (thr \<noteq> PInf \<longrightarrow> \<not> fle (deviation L pitch yaw) thr)"
proof -
  have raise: "draw_gaze L f bb pitch yaw thr th = (Inl ValueError, f)" for f th
    using assms
    by (cases bb; cases pitch; cases yaw)
       (simp_all add: draw_gaze_def Let_def fmul_NaN_right)
  have sum: "fadd (fpow2 L pitch) (fpow2 L yaw) = NaN \<or> fadd (fpow2 L pitch) (fpow2 L yaw) = PInf"
  proof (cases pitch)
    case (Fin a)
    then have "yaw = PInf \<or> yaw = NInf \<or> yaw = NaN"
      using assms by (cases yaw) simp_all
    then show ?thesis
      using Fin by (cases "c_pow2 L a") auto
  next
    case PInf
    then show ?thesis
      by (cases yaw; cases "fpow2 L yaw") auto
  next
    case NInf
    then show ?thesis
      by (cases yaw; cases "fpow2 L yaw") auto
  next
    case NaN
    then show ?thesis by simp
  qed
  then have dev: "deviation L pitch yaw = NaN \<or> deviation L pitch yaw = PInf"
    by (auto simp: deviation_def)
  have cmp: "\<not> fle (deviation L pitch yaw) thr" if "thr \<noteq> PInf"
    using dev that by (cases thr) auto
  have box: "\<exists>f1. draw_bbox frame bb green 2 dbl_0_2 = (Inr (), f1)"
    by (cases bb) (simp add: draw_bbox_def Let_def cv_thickness_ok_def)
  show ?thesis
    using raise dev cmp box by (auto simp: draw_bbox_gaze_def)
qed

theorem non_finite_gaze_raises_witness:
  "draw_gaze nearest_libm frame0 (0, 0, 100, 100) NInf NaN (Fin dbl_0_2) 2
     = (Inl ValueError, frame0)
   \<and> snd (snd (draw_bbox_gaze nearest_libm frame0 (0, 0, 100, 100) NInf NaN (Fin dbl_0_2)
        initial_globals)) = initial_globals
   \<and> \<not> fle (deviation nearest_libm NInf NaN) (Fin dbl_0_2)"
  using non_finite_gaze_raises [where pitch = NInf and yaw = NaN and L = nearest_libm
      and frame = frame0 and bb = "(0, 0, 100, 100)" and thr = "Fin dbl_0_2" and thickness = 2
      and g = initial_globals]
  by simp

text \<open>
  C8 as stated fails: with a NaN yaw the call does not return \<open>False\<close>, it raises.
\<close>

theorem nan_yaw_raises:
  "fst (draw_gaze nearest_libm frame0 (0, 0, 100, 100) (Fin 0) NaN (Fin dbl_0_2) 2)
     = Inl ValueError
   \<and> fst (draw_gaze nearest_libm frame0 (0, 0, 100, 100) (Fin 0) NaN (Fin dbl_0_2) 2)
       \<noteq> Inr False"
  by (simp add: draw_gaze_def Let_def fmul_NaN_right)

section \<open>The counters\<close>

lemma update_counters_simps:
  "total_faces (update_counters b g) = total_faces g + 1"
  "looks_count (update_counters b g) = looks_count g + (if b then 1 else 0)"
  "no_looks_count (update_counters b g) = no_looks_count g + (if b then 0 else 1)"
  "percentage_queue (update_counters b g) = percentage_queue g"
  by (simp_all add: update_counters_def Let_def)

lemma draw_bbox_gaze_globals:
  "draw_bbox_gaze L frame bb pitch yaw thr g = (r, frame', g') \<Longrightarrow>
     g' = (case r of Inl e \<Rightarrow> g | Inr b \<Rightarrow> update_counters b g)"
  by (auto simp: draw_bbox_gaze_def Let_def split: prod.splits sum.splits)

lemma record_faces_length:
  "record_faces L cs g = (rs, g') \<Longrightarrow> length rs = length cs"
  by (induction cs arbitrary: g rs g') (auto split: prod.splits)

lemma record_faces_counters:
  "record_faces L cs g = (rs, g') \<Longrightarrow>
     total_faces g' = total_faces g + length (filter (\<lambda>r. \<not> isl r) rs)
   \<and> looks_count g' = looks_count g + length (filter (\<lambda>r. r = Inr True) rs)
   \<and> no_looks_count g' = no_looks_count g + length (filter (\<lambda>r. r = Inr False) rs)
   \<and> percentage_queue g' = percentage_queue g"
proof (induction cs arbitrary: g rs g')
  case Nil
  then show ?case by simp
next
  case (Cons c cs)
  obtain frame bb pitch yaw thr where c: "c = (frame, bb, pitch, yaw, thr)"
    by (cases c) auto
  obtain r frame1 g1 where step: "draw_bbox_gaze L frame bb pitch yaw thr g = (r, frame1, g1)"
    by (cases "draw_bbox_gaze L frame bb pitch yaw thr g") auto
  obtain rs1 g2 where rest: "record_faces L cs g1 = (rs1, g2)"
    by (cases "record_faces L cs g1") auto
  from Cons.prems c step rest have res: "rs = r # rs1" "g' = g2" by auto
  note ih = Cons.IH [OF rest]
  from draw_bbox_gaze_globals [OF step] show ?case
    using ih res by (cases r) (auto simp: update_counters_simps)
qed

text \<open>
  C2. For every sequence of N calls of \<open>draw_bbox_gaze\<close> that return their
  decisions \<open>bs\<close>, k of them true, from any state of the counters: \<open>total_faces\<close> has
  grown by N, \<open>looks_count\<close> by k and \<open>no_looks_count\<close> by N - k. From the initial
  zeros they are N, k and N - k; with N = 1 this is the single call, which adds one to
  \<open>total_faces\<close> and to exactly one of the other two.
\<close>

theorem record_is_accumulator:
  assumes "record_faces L cs g = (map Inr bs, g')"
  shows "total_faces g' = total_faces g + length cs
       \<and> looks_count g' = looks_count g + length (filter (\<lambda>b. b) bs)
       \<and> no_looks_count g' = no_looks_count g + (length cs - length (filter (\<lambda>b. b) bs))"
proof -
  have len: "length bs = length cs"
    using record_faces_length [OF assms] by simp
  have f1: "filter (\<lambda>r. \<not> isl r) (map Inr bs :: (py_error + bool) list) = map Inr bs"
    by (induction bs) auto
  have f2: "length (filter (\<lambda>r. r = Inr True) (map Inr bs :: (py_error + bool) list))
              = length (filter (\<lambda>b. b) bs)"
    by (induction bs) auto
  have f3: "length (filter (\<lambda>r. r = Inr False) (map Inr bs :: (py_error + bool) list))
              = length bs - length (filter (\<lambda>b. b) bs)"
    by (induction bs) (auto simp: Suc_diff_le)
  from record_faces_counters [OF assms] show ?thesis
    using f1 f2 f3 len by simp
qed

text \<open>The decisions on the faces of the examples.\<close>

lemma example_faces:
  "pixel_box bb \<Longrightarrow>
   draw_bbox_gaze nearest_libm frame bb (Fin (1/8)) (Fin 0) (Fin dbl_0_2) g
     = (Inr True, fst (snd (draw_bbox_gaze nearest_libm frame bb (Fin (1/8)) (Fin 0) (Fin dbl_0_2) g)),
        update_counters True g)"
  "pixel_box bb \<Longrightarrow>
   draw_bbox_gaze nearest_libm frame bb (Fin 0) (Fin (1/8)) (Fin dbl_0_2) g
     = (Inr True, fst (snd (draw_bbox_gaze nearest_libm frame bb (Fin 0) (Fin (1/8)) (Fin dbl_0_2) g)),
        update_counters True g)"
  "pixel_box bb \<Longrightarrow>
   draw_bbox_gaze nearest_libm frame bb (Fin (1/2)) (Fin 0) (Fin dbl_0_2) g
     = (Inr False, fst (snd (draw_bbox_gaze nearest_libm frame bb (Fin (1/2)) (Fin 0) (Fin dbl_0_2) g)),
        update_counters False g)"
proof -
  note b = nearest_libm_bounds
  show "pixel_box bb \<Longrightarrow>
   draw_bbox_gaze nearest_libm frame bb (Fin (1/8)) (Fin 0) (Fin dbl_0_2) g
     = (Inr True, fst (snd (draw_bbox_gaze nearest_libm frame bb (Fin (1/8)) (Fin 0) (Fin dbl_0_2) g)),
        update_counters True g)"
    using draw_bbox_gaze_returns
        [where L = nearest_libm and bb = bb and p = "1/8" and y = 0 and frame = frame
          and thr = "Fin dbl_0_2" and g = g, OF _ b(1) b(2) b(1)]
    by (simp add: prod_eq_iff deviation_on_axis dbl_0_2_def)
  show "pixel_box bb \<Longrightarrow>
   draw_bbox_gaze nearest_libm frame bb (Fin 0) (Fin (1/8)) (Fin dbl_0_2) g
     = (Inr True, fst (snd (draw_bbox_gaze nearest_libm frame bb (Fin 0) (Fin (1/8)) (Fin dbl_0_2) g)),
        update_counters True g)"
    using draw_bbox_gaze_returns
        [where L = nearest_libm and bb = bb and p = 0 and y = "1/8" and frame = frame
          and thr = "Fin dbl_0_2" and g = g, OF _ b(1) b(2) b(1)]
    by (simp add: prod_eq_iff deviation_on_axis dbl_0_2_def)
  show "pixel_box bb \<Longrightarrow>
   draw_bbox_gaze nearest_libm frame bb (Fin (1/2)) (Fin 0) (Fin dbl_0_2) g
     = (Inr False, fst (snd (draw_bbox_gaze nearest_libm frame bb (Fin (1/2)) (Fin 0) (Fin dbl_0_2) g)),
        update_counters False g)"
    using draw_bbox_gaze_returns
        [where L = nearest_libm and bb = bb and p = "1/2" and y = 0 and frame = frame
          and thr = "Fin dbl_0_2" and g = g, OF _ b(1) b(2) b(1)]
    by (simp add: prod_eq_iff deviation_on_axis dbl_0_2_def)
qed

lemma example_boxes: "pixel_box (0, 0, 100, 100)" "pixel_box (200, 50, 300, 150)"
  by (simp_all add: pixel_box_def)

lemma three_faces_run:
  "record_faces nearest_libm three_faces initial_globals = (map Inr [True, False, True], two_of_three)"
proof -
  have "record_faces nearest_libm three_faces initial_globals =
     (map Inr [True, False, True],
      update_counters True (update_counters False (update_counters True initial_globals)))"
    unfolding three_faces_def
    by (subst record_faces.simps, subst example_faces, rule example_boxes, simp only: prod.case)+
       simp
  then show ?thesis
    by (simp add: update_counters_def initial_globals_def two_of_three_def)
qed

theorem record_is_accumulator_witness:
  "record_faces nearest_libm three_faces initial_globals
     = (map Inr [True, False, True], two_of_three)
   \<and> total_faces two_of_three = 3
   \<and> looks_count two_of_three = 2
   \<and> no_looks_count two_of_three = 1"
  using record_is_accumulator [OF three_faces_run] three_faces_run
  by (simp add: initial_globals_def three_faces_def)

section \<open>The percentage\<close>

lemma looking_percentage_total:
  "looking_percentage g =
     Inr (if total_faces g = 0 then 0
          else round_to_double
                 (round_to_double (real (looks_count g) / real (total_faces g)) * 100))"
  by (simp add: looking_percentage_def py_truediv_def)

text \<open>
  C3, as amended. For every state of the counters, the percentage computed by
  \<open>draw_stats\<close> is 0 when \<open>total_faces\<close> is 0, and otherwise the double
  \<^verbatim>\<open>(looks_count / total_faces) * 100\<close>: the quotient rounded to a double, then its
  product with 100 rounded. The division is reached only under \<^verbatim>\<open>total_faces > 0\<close>, so
  neither the computation nor \<open>draw_stats\<close> as a whole raises ZeroDivisionError.
\<close>

theorem current_percentage_guarded:
  "looking_percentage g =
     Inr (if total_faces g = 0 then 0
          else round_to_double
                 (round_to_double (real (looks_count g) / real (total_faces g)) * 100))
   \<and> fst (draw_stats frame g) = Inr ()"
  by (simp add: draw_stats_def looking_percentage_total)

text \<open>With 23 faces looking out of 80 the value is the double below 28.75, shown as
  \<^verbatim>\<open>28.7\<close>.\<close>

theorem current_percentage_guarded_witness:
  "looking_percentage initial_globals = Inr 0
   \<and> looking_percentage twentythree_of_eighty = Inr (8092405580431359 / 281474976710656)
   \<and> format_1f (8092405580431359 / 281474976710656) = ''28.7''"
proof -
  have q: "round_to_double (23/80) = 2589569785738035 / 9007199254740992"
    using round_to_double_eval [of "-2" "23/80"]
    by (simp add: round_half_even_def Let_def)
  have p: "round_to_double (2589569785738035 / 9007199254740992 * 100)
             = 8092405580431359 / 281474976710656"
    using round_to_double_eval [of 4 "2589569785738035 / 9007199254740992 * 100"]
    by (simp add: round_half_even_def Let_def)
  have f: "format_1f (8092405580431359 / 281474976710656) = ''28.7''"
    by (simp add: format_1f_def round_half_even_def digit_char_def Let_def)
  from current_percentage_guarded [of initial_globals frame0]
    current_percentage_guarded [of twentythree_of_eighty frame0]
  show ?thesis
    using p f by (simp add: initial_globals_def twentythree_of_eighty_def q)
qed

text \<open>
  C3 as stated fails: with two faces looking out of three the code returns the double
  66.66666666666666, which is neither the number \<open>100 * 2 / 3\<close> nor the double
  \<^verbatim>\<open>100.0 * 2 / 3\<close>, 66.66666666666667.
\<close>

theorem current_percentage_differs:
  "looking_percentage two_of_three = Inr (2345624805922133 / 35184372088832)
   \<and> (2345624805922133 / 35184372088832 :: real) \<noteq> 100 * 2 / 3
   \<and> round_to_double (round_to_double (100 * 2) / 3) = 4691249611844267 / 70368744177664
   \<and> (2345624805922133 / 35184372088832 :: real) \<noteq> 4691249611844267 / 70368744177664"
proof -
  have q: "round_to_double (2/3) = 6004799503160661 / 9007199254740992"
    using round_to_double_eval [of "-1" "2/3"]
    by (simp add: round_half_even_def Let_def)
  have p: "round_to_double (6004799503160661 / 9007199254740992 * 100)
             = 2345624805922133 / 35184372088832"
    using round_to_double_eval [of 6 "6004799503160661 / 9007199254740992 * 100"]
    by (simp add: round_half_even_def Let_def)
  have h: "round_to_double 200 = 200"
    using round_to_double_eval [of 7 200]
    by (simp add: round_half_even_def Let_def)
  have c: "round_to_double (200/3) = 4691249611844267 / 70368744177664"
    using round_to_double_eval [of 6 "200/3"]
    by (simp add: round_half_even_def Let_def)
  show ?thesis
    using p by (simp add: looking_percentage_total two_of_three_def initial_globals_def q h c)
qed

text \<open>
  C10. For every state of the counters, \<open>draw_stats\<close> returns normally and leaves
  \<open>total_faces\<close>, \<open>looks_count\<close> and \<open>no_looks_count\<close> as they were. It puts exactly
  one item on the queue, the percentage, and draws the five overlay elements (the
  background rectangle and four lines of text) on the frame.
\<close>

theorem draw_stats_only_reads_counters:
  "case draw_stats frame g of
     (r, frame', g') \<Rightarrow>
       r = Inr ()
       \<and> looks_count g' = looks_count g
       \<and> no_looks_count g' = no_looks_count g
       \<and> total_faces g' = total_faces g
       \<and> (\<exists>p. looking_percentage g = Inr p
              \<and> items (percentage_queue g') = items (percentage_queue g) @ [Some p]
              \<and> drawn frame' = drawn frame @ stats_overlay g p (int (width frame)))
       \<and> length (drawn frame') = length (drawn frame) + 5"
  by (simp add: draw_stats_def looking_percentage_total put_def draw_def stats_overlay_def)

lemma run_calls_balance:
  "looks_count g + no_looks_count g = total_faces g \<Longrightarrow>
   looks_count (run_calls L cs g) + no_looks_count (run_calls L cs g)
     = total_faces (run_calls L cs g)"
proof (induction L cs g rule: run_calls.induct)
  case (1 L g)
  then show ?case by simp
next
  case (2 L frame bb pitch yaw thr cs g)
  have "looks_count g' + no_looks_count g' = total_faces g'"
    if "g' = snd (snd (draw_bbox_gaze L frame bb pitch yaw thr g))" for g'
    using that "2.prems"
    by (auto simp: draw_bbox_gaze_def Let_def update_counters_def split: prod.splits sum.splits)
  then show ?case using "2.IH" by simp
next
  case (3 L frame cs g)
  have "looks_count g' + no_looks_count g' = total_faces g'"
    if "g' = snd (snd (draw_stats frame g))" for g'
    using that "3.prems" by (simp add: draw_stats_def looking_percentage_total)
  then show ?case using "3.IH" by simp
qed

lemma percentage_bounds:
  assumes "l \<le> t" "t \<noteq> 0"
  shows "0 \<le> round_to_double (round_to_double (real l / real t) * 100)"
    and "round_to_double (round_to_double (real l / real t) * 100) \<le> 100"
proof -
  let ?q = "round_to_double (real l / real t)"
  have x: "0 \<le> real l / real t" "\<bar>real l / real t\<bar> \<le> of_int 1"
    using assms by simp_all
  have q: "0 \<le> ?q" "\<bar>?q\<bar> \<le> 1"
    using round_to_double_nonneg [OF x(1)] round_to_double_bound [OF x(2)] by simp_all
  then have y: "0 \<le> ?q * 100" "\<bar>?q * 100\<bar> \<le> of_int 100"
    by simp_all
  show "0 \<le> round_to_double (?q * 100)"
    using y(1) by (rule round_to_double_nonneg)
  have "\<bar>round_to_double (?q * 100)\<bar> \<le> of_int 100"
    using y(2) by (rule round_to_double_bound) simp
  then show "round_to_double (?q * 100) \<le> 100"
    by simp
qed

lemma two_faces_and_stats_run:
  "run_calls nearest_libm two_faces_and_stats initial_globals =
     \<lparr>looks_count = 1, no_looks_count = 1, total_faces = 2,
      percentage_queue = \<lparr>items = [Some 100], unfinished_tasks = 1\<rparr>\<rparr>"
proof -
  have one: "round_to_double 1 = 1" "round_to_double 100 = 100"
    using round_to_double_eval [of 0 1] round_to_double_eval [of 6 100]
    by (simp_all add: round_half_even_def Let_def)
  have "run_calls nearest_libm two_faces_and_stats initial_globals =
     update_counters False
       (snd (snd (draw_stats frame0 (update_counters True initial_globals))))"
    unfolding two_faces_and_stats_def run_calls.simps
    by (subst example_faces, rule example_boxes, subst example_faces, rule example_boxes) simp
  then show ?thesis
    by (simp add: update_counters_def initial_globals_def draw_stats_def
          looking_percentage_total put_def Queue_def one)
qed

text \<open>
  C9. For every state of the counters reached from the initial zeros by calls of
  \<open>draw_bbox_gaze\<close> and \<open>draw_stats\<close>, the percentage that \<open>draw_stats\<close> puts on
  the queue is between 0 and 100: it is \<open>looks_count / total_faces * 100\<close> as the code
  evaluates it (the quotient a double, the product a double), and 0 when \<open>total_faces\<close>
  is 0.
\<close>

theorem percentage_sample_in_range:
  assumes "g = run_calls L cs initial_globals"
    and "draw_stats frame g = (r, frame', g')"
  shows "\<exists>p. items (percentage_queue g') = items (percentage_queue g) @ [Some p]
           \<and> 0 \<le> p \<and> p \<le> 100
           \<and> p = (if total_faces g = 0 then 0
                  else round_to_double
                         (round_to_double (real (looks_count g) / real (total_faces g)) * 100))"
proof -
  have "looks_count g + no_looks_count g = total_faces g"
    unfolding assms(1) by (rule run_calls_balance) (simp add: initial_globals_def)
  then have le: "looks_count g \<le> total_faces g" by simp
  define p where "p = (if total_faces g = 0 then 0
                  else round_to_double
                         (round_to_double (real (looks_count g) / real (total_faces g)) * 100))"
  have "0 \<le> p \<and> p \<le> 100"
    using percentage_bounds [OF le] by (simp add: p_def)
  moreover have "items (percentage_queue g') = items (percentage_queue g) @ [Some p]"
    using assms(2) by (auto simp: draw_stats_def looking_percentage_total put_def p_def)
  ultimately show ?thesis unfolding p_def by blast
qed

theorem percentage_sample_in_range_witness:
  "items (percentage_queue
      (snd (snd (draw_stats frame0 (run_calls nearest_libm two_faces_and_stats initial_globals)))))
     = [Some 100, Some 50]"
proof -
  obtain r frame' g' where
    d: "draw_stats frame0 (run_calls nearest_libm two_faces_and_stats initial_globals)
          = (r, frame', g')"
    by (cases "draw_stats frame0 (run_calls nearest_libm two_faces_and_stats initial_globals)")
       auto
  have g': "snd (snd (draw_stats frame0
      (run_calls nearest_libm two_faces_and_stats initial_globals))) = g'"
    by (simp add: d)
  have half: "round_to_double (1/2) = 1/2" "round_to_double 50 = 50"
    using round_to_double_eval [of "-1" "1/2"] round_to_double_eval [of 5 50]
    by (simp_all add: round_half_even_def Let_def)
  from percentage_sample_in_range [OF refl d]
  have "items (percentage_queue g') = [Some 100, Some 50]"
    by (auto simp: two_faces_and_stats_run half)
  then show ?thesis
    by (simp only: g')
qed

section \<open>The writer thread\<close>

declare percentage_writer.simps [simp del]

lemma put_all_items: "items (put_all xs q) = items q @ xs"
  unfolding put_all_def by (induction xs arbitrary: q) (simp_all add: put_def)

lemma put_all_unfinished: "unfinished_tasks (put_all xs q) = unfinished_tasks q + length xs"
  unfolding put_all_def by (induction xs arbitrary: q) (simp_all add: put_def)

lemma writer_blocks_on_empty:
  "items q = [] \<Longrightarrow> percentage_writer env q w = (Waiting, q, w)"
  by (simp add: percentage_writer.simps writer_iteration_def get_def)

lemma writer_breaks_on_None:
  "items q = None # rest \<Longrightarrow> percentage_writer env q w = (Stopped, q\<lparr>items := rest\<rparr>, w)"
  by (simp add: percentage_writer.simps writer_iteration_def get_def)

lemma writer_iteration_sample:
  "items q = Some p # rest \<Longrightarrow> 0 < unfinished_tasks q \<Longrightarrow>
   writer_iteration env q w =
     (Running, q\<lparr>items := rest, unfinished_tasks := unfinished_tasks q - 1\<rparr>,
      write_percentage env p w)"
  by (simp add: writer_iteration_def get_def task_done_def Let_def)

lemma write_all_Cons: "write_all env (p # ps) w = write_all env ps (write_percentage env p w)"
  by (simp add: write_all_def)

lemma write_all_snoc: "write_all env (ps @ [p]) w = write_percentage env p (write_all env ps w)"
  by (simp add: write_all_def)

lemma writer_drains_samples:
  "items q = map Some ps @ rest \<Longrightarrow> length ps \<le> unfinished_tasks q \<Longrightarrow>
   percentage_writer env q w =
     percentage_writer env
       (q\<lparr>items := rest, unfinished_tasks := unfinished_tasks q - length ps\<rparr>)
       (write_all env ps w)"
proof (induction ps arbitrary: q w)
  case Nil
  then show ?case by (cases q) (simp add: write_all_def)
next
  case (Cons p ps)
  let ?q1 = "q\<lparr>items := map Some ps @ rest, unfinished_tasks := unfinished_tasks q - 1\<rparr>"
  have it: "writer_iteration env q w = (Running, ?q1, write_percentage env p w)"
    using Cons.prems by (intro writer_iteration_sample) simp_all
  have "percentage_writer env q w = percentage_writer env ?q1 (write_percentage env p w)"
    by (subst percentage_writer.simps) (simp add: it)
  also have "\<dots> = percentage_writer env
       (?q1\<lparr>items := rest, unfinished_tasks := unfinished_tasks ?q1 - length ps\<rparr>)
       (write_all env ps (write_percentage env p w))"
    using Cons.prems by (intro Cons.IH) simp_all
  finally show ?case by (simp add: write_all_Cons)
qed

lemma attempts_write_percentage: "attempts (write_percentage env p w) = Suc (attempts w)"
  by (simp add: write_percentage_def Let_def set_file_def print_def split: io_outcome.splits)

lemma attempts_write_all: "attempts (write_all env ps w) = attempts w + length ps"
  by (induction ps arbitrary: w) (simp_all add: write_all_def attempts_write_percentage)

lemma stdout_write_percentage:
  "stdout (write_percentage env p w) = stdout w @ logged (env (attempts w))"
  by (simp add: write_percentage_def Let_def set_file_def print_def logged_def
           split: io_outcome.splits)

lemma stdout_write_all:
  "stdout (write_all env ps w) =
     stdout w @ concat (map (\<lambda>i. logged (env (attempts w + i))) [0..<length ps])"
proof (induction ps rule: rev_induct)
  case Nil
  then show ?case by (simp add: write_all_def)
next
  case (snoc p ps)
  then show ?case
    by (simp add: write_all_snoc stdout_write_percentage attempts_write_all)
qed

lemma write_percentage_ok:
  "env (attempts w) = WriteOk \<Longrightarrow>
   percentage_txt (write_percentage env p w) = Some (format_1f p)
   \<and> file_history (write_percentage env p w) = file_history w @ [Some '''', Some (format_1f p)]"
  by (simp add: write_percentage_def Let_def set_file_def file_history_def)

lemma file_history_write_all_ok:
  "\<forall>i<length ps. env (attempts w + i) = WriteOk \<Longrightarrow>
   file_history (write_all env ps w) =
     file_history w @ concat (map (\<lambda>p. [Some '''', Some (format_1f p)]) ps)"
proof (induction ps rule: rev_induct)
  case Nil
  then show ?case by (simp add: write_all_def)
next
  case (snoc p ps)
  have "env (attempts (write_all env ps w)) = WriteOk"
    using snoc.prems by (simp add: attempts_write_all)
  moreover have "\<forall>i<length ps. env (attempts w + i) = WriteOk"
    using snoc.prems by simp
  ultimately show ?case
    using snoc.IH by (simp add: write_all_snoc write_percentage_ok)
qed

lemma last_write_wins:
  "ps \<noteq> [] \<Longrightarrow> env (attempts w + length ps - 1) = WriteOk \<Longrightarrow>
   percentage_txt (write_all env ps w) = Some (format_1f (last ps))"
proof (induction ps rule: rev_induct)
  case Nil
  then show ?case by simp
next
  case (snoc p ps)
  then show ?case by (simp add: write_all_snoc write_percentage_ok attempts_write_all)
qed

lemma format_1f_nonempty: "format_1f p \<noteq> ''''"
  by (simp add: format_1f_def Let_def)

lemma drain_samples_from_empty:
  "percentage_writer env (put_all (map Some ps) Queue) w = (Waiting, Queue, write_all env ps w)"
proof -
  let ?q = "put_all (map Some ps) Queue"
  have "percentage_writer env ?q w =
      percentage_writer env (?q\<lparr>items := [], unfinished_tasks := unfinished_tasks ?q - length ps\<rparr>)
        (write_all env ps w)"
    by (rule writer_drains_samples) (simp_all add: put_all_items put_all_unfinished Queue_def)
  also have "\<dots> = (Waiting, ?q\<lparr>items := [], unfinished_tasks := unfinished_tasks ?q - length ps\<rparr>,
        write_all env ps w)"
    by (rule writer_blocks_on_empty) simp
  also have "?q\<lparr>items := [], unfinished_tasks := unfinished_tasks ?q - length ps\<rparr> = Queue"
    by (rule queue.equality) (simp_all add: put_all_unfinished Queue_def)
  finally show ?thesis .
qed

lemma drain_to_sentinel:
  "percentage_writer env (put_all (map Some ps @ None # later) Queue) w =
     (Stopped, \<lparr>items = later, unfinished_tasks = Suc (length later)\<rparr>, write_all env ps w)"
proof -
  let ?q = "put_all (map Some ps @ None # later) Queue"
  let ?q1 = "?q\<lparr>items := None # later, unfinished_tasks := unfinished_tasks ?q - length ps\<rparr>"
  have "percentage_writer env ?q w = percentage_writer env ?q1 (write_all env ps w)"
    by (rule writer_drains_samples) (simp_all add: put_all_items put_all_unfinished Queue_def)
  also have "\<dots> = (Stopped, ?q1\<lparr>items := later\<rparr>, write_all env ps w)"
    by (rule writer_breaks_on_None) simp
  also have "?q1\<lparr>items := later\<rparr> = \<lparr>items = later, unfinished_tasks = Suc (length later)\<rparr>"
    by (rule queue.equality) (simp_all add: put_all_unfinished Queue_def)
  finally show ?thesis .
qed

lemma put_all_Cons: "put_all (x # xs) q = put_all xs (put x q)"
  by (simp add: put_all_def)

lemma writer_pass_absorbed:
  assumes inv: "length (items q) \<le> unfinished_tasks q" and al: "alive st"
    and it: "writer_iteration env q w = (st', q', w')"
  shows "finish env (st', put_all P q', w') = percentage_writer env (put_all P q) w"
proof (cases "items q")
  case Nil
  then have "(st', q', w') = (Waiting, q, w)"
    using it by (simp add: writer_iteration_def get_def)
  then show ?thesis by (simp add: finish_def alive_def)
next
  case (Cons x rest)
  show ?thesis
  proof (cases x)
    case None
    then have r: "st' = Stopped" "q' = q\<lparr>items := rest\<rparr>" "w' = w"
      using it Cons by (simp_all add: writer_iteration_def get_def)
    have "percentage_writer env (put_all P q) w
            = (Stopped, (put_all P q)\<lparr>items := rest @ P\<rparr>, w)"
      by (rule writer_breaks_on_None) (simp add: put_all_items Cons None)
    moreover have "(put_all P q)\<lparr>items := rest @ P\<rparr> = put_all P (q\<lparr>items := rest\<rparr>)"
      by (rule queue.equality) (simp_all add: put_all_items put_all_unfinished)
    ultimately show ?thesis by (simp add: finish_def alive_def r)
  next
    case (Some p)
    have pos: "0 < unfinished_tasks q" using inv Cons by simp
    have r: "st' = Running"
      "q' = q\<lparr>items := rest, unfinished_tasks := unfinished_tasks q - 1\<rparr>"
      "w' = write_percentage env p w"
      using it writer_iteration_sample [of q p rest env w] Cons Some pos by simp_all
    have "writer_iteration env (put_all P q) w =
        (Running,
         (put_all P q)\<lparr>items := rest @ P,
            unfinished_tasks := unfinished_tasks (put_all P q) - 1\<rparr>,
         write_percentage env p w)"
      by (rule writer_iteration_sample) (simp_all add: put_all_items put_all_unfinished Cons Some pos)
    moreover have "(put_all P q)\<lparr>items := rest @ P,
            unfinished_tasks := unfinished_tasks (put_all P q) - 1\<rparr> = put_all P q'"
      using pos by (intro queue.equality) (simp_all add: put_all_items put_all_unfinished r)
    ultimately have "percentage_writer env (put_all P q) w
        = percentage_writer env (put_all P q') w'"
      by (subst percentage_writer.simps) (simp add: r)
    then show ?thesis by (simp add: finish_def alive_def r)
  qed
qed

lemma writer_iteration_inv:
  "length (items q) \<le> unfinished_tasks q \<Longrightarrow> writer_iteration env q w = (st', q', w') \<Longrightarrow>
   length (items q') \<le> unfinished_tasks q'"
  by (auto simp: writer_iteration_def get_def task_done_def Let_def
           split: list.splits option.splits if_splits)

lemma schedule_absorbed:
  "length (items q) \<le> unfinished_tasks q \<Longrightarrow>
   finish env (run_schedule env evs (st, q, w)) = finish env (st, put_all (publishes evs) q, w)"
proof (induction evs arbitrary: st q w)
  case Nil
  then show ?case by (simp add: run_schedule_def put_all_def)
next
  case (Cons e evs)
  show ?case
  proof (cases e)
    case (Publish x)
    have "length (items (put x q)) \<le> unfinished_tasks (put x q)"
      using Cons.prems by (simp add: put_def)
    from Cons.IH [OF this] show ?thesis
      by (simp add: Publish run_schedule_def put_all_Cons)
  next
    case WriterPass
    show ?thesis
    proof (cases "alive st")
      case False
      then show ?thesis
        using Cons.IH [OF Cons.prems] by (simp add: WriterPass run_schedule_def)
    next
      case True
      obtain st' q' w' where it: "writer_iteration env q w = (st', q', w')"
        by (cases "writer_iteration env q w") auto
      have inv': "length (items q') \<le> unfinished_tasks q'"
        using writer_iteration_inv [OF Cons.prems it] .
      have "finish env (run_schedule env (e # evs) (st, q, w))
              = finish env (run_schedule env evs (st', q', w'))"
        by (simp add: WriterPass run_schedule_def True it)
      also have "\<dots> = finish env (st', put_all (publishes evs) q', w')"
        by (rule Cons.IH [OF inv'])
      also have "\<dots> = percentage_writer env (put_all (publishes evs) q) w"
        by (rule writer_pass_absorbed [OF Cons.prems True it])
      finally show ?thesis
        by (simp add: finish_def True WriterPass)
    qed
  qed
qed

lemma schedule_independent:
  "finish env (run_schedule env evs (Running, Queue, w))
     = percentage_writer env (put_all (publishes evs) Queue) w"
  using schedule_absorbed [of Queue env evs Running w]
  by (simp add: Queue_def finish_def alive_def)

lemmas format_eval = format_1f_def round_half_even_def digit_char_def Let_def

text \<open>
  C4. For every finite sequence \<open>ps\<close> of percentages put on the queue, under every
  schedule of the puts and the thread's passes: once the thread has drained the queue it
  is blocked in \<^verbatim>\<open>get\<close>, having made its write attempts for the samples one by one in
  the order they were put. When the writes go through, the file has gone through the
  samples in that order (each time the truncated file, then the sample's \<^verbatim>\<open>.1f\<close> text),
  and it ends on the last sample: after \<open>[10.0, 55.55, 100.0]\<close> it holds exactly
  \<^verbatim>\<open>100.0\<close>.
\<close>

theorem writer_fifo_last_wins:
  assumes "publishes evs = map Some ps"
  shows "case finish env (run_schedule env evs (Running, Queue, w)) of
     (st, q, w') \<Rightarrow>
       st = Waiting \<and> items q = []
       \<and> w' = write_all env ps w
       \<and> ((\<forall>i<length ps. env (attempts w + i) = WriteOk) \<longrightarrow>
            file_history w' =
              file_history w @ concat (map (\<lambda>p. [Some '''', Some (format_1f p)]) ps))
       \<and> (ps \<noteq> [] \<and> env (attempts w + length ps - 1) = WriteOk
            \<longrightarrow> percentage_txt w' = Some (format_1f (last ps)))
       \<and> (ps = [10, 3908983739069235 / 70368744177664, 100] \<and> env (attempts w + 2) = WriteOk
            \<longrightarrow> percentage_txt w' = Some ''100.0'')"
proof -
  have fin: "finish env (run_schedule env evs (Running, Queue, w))
      = (Waiting, Queue, write_all env ps w)"
    by (simp add: schedule_independent assms drain_samples_from_empty)
  have "format_1f 100 = ''100.0''"
    by (simp add: format_eval)
  then show ?thesis
    unfolding fin
    by (auto simp: Queue_def file_history_write_all_ok last_write_wins)
qed

theorem writer_fifo_last_wins_witness:
  "case finish (\<lambda>_. WriteOk) (run_schedule (\<lambda>_. WriteOk) three_samples (Running, Queue, world0)) of
     (st, q, w') \<Rightarrow>
       st = Waiting \<and> items q = []
       \<and> file_history w' =
           [Some ''10.0'', Some '''', Some ''10.0'', Some '''', Some ''55.5'', Some '''',
            Some ''100.0'']
       \<and> percentage_txt w' = Some ''100.0''"
proof -
  have p: "publishes three_samples = map Some [10, 3908983739069235 / 70368744177664, 100]"
    by (simp add: three_samples_def)
  have f: "format_1f 10 = ''10.0''" "format_1f (3908983739069235 / 70368744177664) = ''55.5''"
    "format_1f 100 = ''100.0''"
    by (simp_all add: format_eval)
  from writer_fifo_last_wins [OF p, where w = world0 and env = "\<lambda>_. WriteOk"] show ?thesis
    by (simp add: f world0_def file_history_def split: prod.splits)
qed

text \<open>
  C5. When the items put are the samples \<open>ps\<close>, then \<^verbatim>\<open>None\<close>, then anything
  \<open>later\<close>: under every schedule and every behaviour of the file system the thread ends
  out of its loop, having made one write attempt for each sample of \<open>ps\<close> and none for
  \<^verbatim>\<open>None\<close>; the items put after \<^verbatim>\<open>None\<close> are still on the queue, never taken. When the
  write of the last sample went through, the file holds the \<^verbatim>\<open>.1f\<close> text of that
  sample, one of \<open>ps\<close>.
\<close>

theorem writer_stops_at_sentinel:
  assumes "publishes evs = map Some ps @ None # later"
  shows "case finish env (run_schedule env evs (Running, Queue, w)) of
     (st, q, w') \<Rightarrow>
       st = Stopped \<and> items q = later
       \<and> w' = write_all env ps w
       \<and> attempts w' = attempts w + length ps
       \<and> (ps \<noteq> [] \<and> env (attempts w + length ps - 1) = WriteOk
            \<longrightarrow> percentage_txt w' = Some (format_1f (last ps)) \<and> last ps \<in> set ps)"
proof -
  have fin: "finish env (run_schedule env evs (Running, Queue, w))
      = (Stopped, \<lparr>items = later, unfinished_tasks = Suc (length later)\<rparr>, write_all env ps w)"
    by (simp add: schedule_independent assms drain_to_sentinel)
  show ?thesis
    unfolding fin by (simp add: attempts_write_all last_write_wins)
qed

theorem writer_stops_at_sentinel_witness:
  "case finish (\<lambda>_. WriteOk) (run_schedule (\<lambda>_. WriteOk) five_samples_then_stop (Running, Queue, world0)) of
     (st, q, w') \<Rightarrow>
       st = Stopped \<and> items q = [Some 60] \<and> attempts w' = 5
       \<and> percentage_txt w' = Some ''50.0''"
proof -
  have p: "publishes five_samples_then_stop = map Some [10, 20, 30, 40, 50] @ None # [Some 60]"
    by (simp add: five_samples_then_stop_def)
  have f: "format_1f 50 = ''50.0''"
    by (simp add: format_eval)
  from writer_stops_at_sentinel [OF p, where env = "\<lambda>_. WriteOk" and w = world0] show ?thesis
    by (simp add: f world0_def split: prod.splits)
qed

text \<open>
  C6. Whatever the file system answers to each write, under every schedule: each
  failed attempt prints its \<^verbatim>\<open>Error writing to file\<close> line and nothing else happens to
  the thread, which makes one attempt per sample and ends blocked in \<^verbatim>\<open>get\<close>, alive; a
  sample whose write goes through after earlier failures is in the file. The publisher's
  step is \<open>put\<close>, which has no error result and does not touch the file.
\<close>

theorem write_failure_contained:
  assumes "publishes evs = map Some ps"
  shows "case finish env (run_schedule env evs (Running, Queue, w)) of
     (st, q, w') \<Rightarrow>
       st = Waiting \<and> items q = []
       \<and> attempts w' = attempts w + length ps
       \<and> stdout w' =
           stdout w @ concat (map (\<lambda>i. logged (env (attempts w + i))) [0..<length ps])
       \<and> (ps \<noteq> [] \<and> env (attempts w + length ps - 1) = WriteOk
            \<longrightarrow> percentage_txt w' = Some (format_1f (last ps)))"
proof -
  have fin: "finish env (run_schedule env evs (Running, Queue, w))
      = (Waiting, Queue, write_all env ps w)"
    by (simp add: schedule_independent assms drain_samples_from_empty)
  show ?thesis
    unfolding fin by (simp add: Queue_def attempts_write_all stdout_write_all last_write_wins)
qed

theorem write_failure_contained_witness:
  "case finish denied_once (run_schedule denied_once two_samples (Running, Queue, world0)) of
     (st, q, w') \<Rightarrow>
       st = Waiting \<and> items q = [] \<and> attempts w' = 2
       \<and> stdout w' = [''Error writing to file: [Errno 13] Permission denied'']
       \<and> percentage_txt w' = Some ''20.0''"
proof -
  have p: "publishes two_samples = map Some [10, 20]"
    by (simp add: two_samples_def)
  have f: "format_1f 20 = ''20.0''"
    by (simp add: format_eval)
  have u: "[0..<2] = [0, Suc 0]"
    by (simp add: upt_rec)
  from write_failure_contained [OF p, where env = denied_once and w = world0] show ?thesis
    by (simp add: f u world0_def denied_once_def logged_def split: prod.splits)
qed

text \<open>
  C7, as amended. Each write that goes through replaces the whole content of the
  file by the new value's \<^verbatim>\<open>.1f\<close> text, but in two steps: \<^verbatim>\<open>open(filepath, 'w')\<close>
  truncates the file, and the text arrives after that. Between the two a reader finds
  the file empty; otherwise it finds the value of the write before or the new one.
\<close>

theorem overwrite_in_place:
  assumes "env (attempts w) = WriteOk"
  shows "file_history (write_percentage env p w)
           = file_history w @ [Some '''', Some (format_1f p)]
       \<and> percentage_txt (write_percentage env p w) = Some (format_1f p)
       \<and> format_1f p \<noteq> ''''"
  using assms by (simp add: write_percentage_ok format_1f_nonempty)

theorem overwrite_in_place_witness:
  "file_history (write_percentage (\<lambda>_. WriteOk) 100 world0)
     = [Some ''10.0'', Some '''', Some ''100.0'']"
proof -
  have f: "format_1f 100 = ''100.0''"
    by (simp add: format_eval)
  have ok: "(\<lambda>_. WriteOk) (attempts world0) = WriteOk"
    by simp
  from overwrite_in_place [OF ok, where p = 100] show ?thesis
    by (simp add: f world0_def file_history_def)
qed

text \<open>
  C7 as stated fails: while \<^verbatim>\<open>50.0\<close> replaces \<^verbatim>\<open>10.0\<close> the file is, for a moment, empty,
  which is neither of the two.
\<close>

theorem overwrite_not_atomic:
  "Some '''' \<in> set (file_history (write_percentage (\<lambda>_. WriteOk) 50 world0))
   \<and> Some '''' \<noteq> percentage_txt world0
   \<and> Some '''' \<noteq> percentage_txt (write_percentage (\<lambda>_. WriteOk) 50 world0)"
  by (simp add: write_percentage_def set_file_def file_history_def world0_def
        format_1f_nonempty [symmetric])

end
